theory Spec2Isabelle
  imports Complex_Main "HOL-Library.Log_Nat"
begin

section \<open>The recording session of the audio recorder widget\<close>

text \<open>
  The repository holds two React components around the wavesurfer.js record plugin:
  \<^item> \<^verbatim>\<open>AudioRecorderApp\<close> (the component \<^verbatim>\<open>App\<close> renders), names suffixed \<open>A\<close> where
    they clash;
  \<^item> \<^verbatim>\<open>Recorder\<close> (imported by \<^verbatim>\<open>App\<close>), names suffixed \<open>R\<close> where they clash.

  A component is embedded as a record of its \<^verbatim>\<open>useState\<close> cells and refs, each handler
  as a function from the record to the record. JavaScript runs one handler at a time, so
  a run of the component is a list of events (clicks, timer firings, notifications of the
  plugin) folded over the record. What the handlers send to the record plugin and to
  WaveSurfer is appended to a log of calls; what comes back (a settled promise, a
  \<^verbatim>\<open>record-end\<close>, a \<^verbatim>\<open>record-progress\<close>) is an event of the run. The session keeps
  its times as exact rationals or integers; where \<^verbatim>\<open>formatTime\<close> divides and prints, the
  rounding of doubles is written out.
\<close>

subsection \<open>Session states, commands and the calls to the collaborators\<close>

datatype session_state = Idle | Recording | Paused | Finished

datatype command = Start | Pause | Resume | Stop | Reset

type_synonym blob = nat

datatype capture_call =
  StartRecordingCall | PauseRecordingCall | ResumeRecordingCall | StopRecordingCall

datatype view_call =
  Empty | PlayPause | Load blob | LoadBlob blob | LoadBaseline | SeekToStart
  | HideCursor | PlayCall | PauseCall | OnInteraction | Destroy

text \<open>
  The transition table as the specification documents it; every pair it does not list
  keeps the state.
\<close>

fun spec_transition :: "session_state \<Rightarrow> command \<Rightarrow> session_state" where
  "spec_transition Idle Start = Recording"
| "spec_transition Recording Pause = Paused"
| "spec_transition Paused Resume = Recording"
| "spec_transition Recording Stop = Finished"
| "spec_transition Paused Stop = Finished"
| "spec_transition Finished Reset = Idle"
| "spec_transition s c = s"

fun spec_legal :: "session_state \<Rightarrow> command \<Rightarrow> bool" where
  "spec_legal Idle Start = True"
| "spec_legal Recording Pause = True"
| "spec_legal Paused Resume = True"
| "spec_legal Recording Stop = True"
| "spec_legal Paused Stop = True"
| "spec_legal Finished Reset = True"
| "spec_legal s c = False"

subsection \<open>Rendering a number of seconds\<close>

text \<open>
  \<^verbatim>\<open>formatTime\<close> divides, floors, takes a remainder and prints. A JavaScript number is
  an IEEE 754 double, here the rational it denotes: a quotient is rounded to the nearest
  double, ties to even; \<^verbatim>\<open>Math.floor\<close> and \<^verbatim>\<open>%\<close> (the remainder of the division that
  truncates towards zero) are exact; a template literal prints a Number as the shortest
  decimal that reads back as the same double, in exponent notation from \<open>10 ^ 21\<close> on.
\<close>

text \<open>The binary exponent \<open>e\<close> of a positive number: \<open>2 ^ e \<le> x < 2 ^ (e + 1)\<close>.\<close>

definition ilog2 :: "rat \<Rightarrow> int" where
  "ilog2 x =
     (if 1 \<le> x then int (floorlog 2 (nat \<lfloor>x\<rfloor>)) - 1
      else - int (floorlog 2 (nat (\<lceil>1 / x\<rceil> - 1))))"

text \<open>Rounding to the nearest integer, a tie to the even one.\<close>

definition rne :: "rat \<Rightarrow> int" where
  "rne y =
     (let f = \<lfloor>y\<rfloor>; d = y - of_int f
      in if d < 1 / 2 then f else if 1 / 2 < d then f + 1 else if even f then f else f + 1)"

text \<open>
  The double nearest to \<open>x\<close>: 53 significant bits, and multiples of \<open>2 ^ - 1074\<close> below
  the normal range. The overflow to infinity is left out: the quotient of a double by 60
  is never that large.
\<close>

definition fl :: "rat \<Rightarrow> rat" where
  "fl x =
     (if x = 0 then 0
      else (let q = 2 powi (max (ilog2 \<bar>x\<bar> - 52) (- 1074)) in of_int (rne (x / q)) * q))"

text \<open>The decimal digits of a natural number.\<close>

definition digit_char :: "nat \<Rightarrow> char" where
  "digit_char d = ''0123456789'' ! (d mod 10)"

fun show_nat :: "nat \<Rightarrow> string" where
  "show_nat n =
     (if n < 10 then [digit_char n] else show_nat (n div 10) @ [digit_char (n mod 10)])"

declare show_nat.simps [simp del]

text \<open>
  \<^verbatim>\<open>Number::toString\<close> on a double \<open>x\<close> that is a natural number. \<open>shortest x p\<close> is the
  multiple of the highest power of ten, from \<open>10 ^ p\<close> down, that rounds to \<open>x\<close>: the one
  with the fewest significant digits, the nearer to \<open>x\<close> of two, the one with the even
  last digit at a tie.
\<close>

fun shortest :: "nat \<Rightarrow> nat \<Rightarrow> nat" where
  "shortest x 0 = x"
| "shortest x (Suc p) =
     (let u = 10 ^ Suc p; lo = (x div u) * u; hi = lo + u;
          okl = (lo \<noteq> 0 \<and> fl (of_nat lo) = of_nat x);
          okh = (fl (of_nat hi) = of_nat x)
      in if okl \<and> okh
         then (if x - lo < hi - x then lo else if hi - x < x - lo then hi
               else if even (lo div u) then lo else hi)
         else if okl then lo else if okh then hi else shortest x p)"

definition strip_zeros :: "string \<Rightarrow> string" where
  "strip_zeros ds = rev (dropWhile (\<lambda>c. c = CHR ''0'') (rev ds))"

definition number_toString :: "nat \<Rightarrow> string" where
  "number_toString x =
     (let v = shortest x (length (show_nat x)); ds = show_nat v
      in if v < 10 ^ 21 then ds
         else (let sig = strip_zeros ds
               in hd sig # (if length sig = 1 then [] else CHR ''.'' # tl sig)
                  @ ''e+'' @ show_nat (length ds - 1)))"

definition show_number :: "int \<Rightarrow> string" where
  "show_number i =
     (if i < 0 then ''-'' @ number_toString (nat (- i)) else number_toString (nat i))"

definition js_rem :: "rat \<Rightarrow> rat \<Rightarrow> rat" where
  "js_rem a b = (let q = a / b in a - b * of_int (if q < 0 then \<lceil>q\<rceil> else \<lfloor>q\<rfloor>))"

definition js_rem_int :: "int \<Rightarrow> int \<Rightarrow> int" where
  "js_rem_int a b = sgn a * (\<bar>a\<bar> mod \<bar>b\<bar>)"

text \<open>
  \<^verbatim>\<open>AudioRecorderApp\<close>, lines 9-13. Its argument is \<^verbatim>\<open>duration\<close> or \<^verbatim>\<open>currentTime\<close>,
  a fractional number of seconds, so both parts are floored.
\<close>

definition formatTimeA :: "rat \<Rightarrow> string" where
  "formatTimeA seconds =
     (let mins = \<lfloor>fl (seconds / 60)\<rfloor>;
          secs = \<lfloor>js_rem seconds 60\<rfloor>
      in show_number mins @ '':'' @ (if secs < 10 then ''0'' else '''') @ show_number secs)"

text \<open>
  \<^verbatim>\<open>Recorder\<close>, lines 42-46. Its argument is \<^verbatim>\<open>time\<close> or \<^verbatim>\<open>playbackTime\<close>, an integer.
\<close>

definition formatTimeR :: "int \<Rightarrow> string" where
  "formatTimeR sec =
     (let mins = \<lfloor>fl (of_int sec / 60)\<rfloor>;
          secs = js_rem_int sec 60
      in show_number mins @ '':'' @
         (if secs < 10 then ''0'' @ show_number secs else show_number secs))"

text \<open>
  The rendering the specification describes, in exact arithmetic: the minutes
  \<open>s div 60\<close> in decimal, a colon, the two digits of \<open>s mod 60\<close>.
\<close>

definition spec_formatTime :: "nat \<Rightarrow> string" where
  "spec_formatTime s =
     show_nat (s div 60) @ '':'' @ [digit_char (s mod 60 div 10), digit_char (s mod 60 mod 10)]"

subsection \<open>AudioRecorderApp\<close>

datatype rec_mode = LIMITED | UNLIMITED

text \<open>
  The state cells of lines 28-33 and the two refs of lines 24-25 (\<open>True\<close> when the ref
  holds an instance). The last five fields are the environment: the calls made to the
  record plugin and to WaveSurfer, the \<^verbatim>\<open>startRecording\<close> promises awaited and not yet
  settled, the \<^verbatim>\<open>setTimeout\<close> callbacks of \<^verbatim>\<open>stopRecording\<close> not yet run, and the number
  of \<^verbatim>\<open>console.error\<close> calls. The radio buttons that switch \<^verbatim>\<open>mode\<close>, deleting the
  recording and creating WaveSurfer and the plugin anew, are left out: a record stands
  for the component between two such switches.
\<close>

record app =
  recorderState :: session_state
  duration :: rat
  currentTime :: rat
  mode :: rec_mode
  recordedUrl :: "blob option"
  isPlaying :: bool
  recordPluginRef :: bool
  wavesurferRef :: bool
  captureCalls :: "capture_call list"
  viewCalls :: "view_call list"
  startsInFlight :: nat
  stopTimeouts :: nat
  consoleErrors :: nat

definition maxDurationA :: rat where
  "maxDurationA = 30"

text \<open>
  \<^verbatim>\<open>startRecording\<close> (lines 114-129) up to its \<^verbatim>\<open>await\<close>, and its two continuations.
\<close>

definition startRecordingA :: "app \<Rightarrow> app" where
  "startRecordingA s =
     (if \<not> recordPluginRef s then s
      else s\<lparr>captureCalls := captureCalls s @ [StartRecordingCall],
             startsInFlight := startsInFlight s + 1\<rparr>)"

definition startRecordingA_resolved :: "app \<Rightarrow> app" where
  "startRecordingA_resolved s =
     (if startsInFlight s = 0 then s
      else s\<lparr>startsInFlight := startsInFlight s - 1,
             recorderState := Recording, recordedUrl := None, duration := 0\<rparr>)"

definition startRecordingA_rejected :: "app \<Rightarrow> app" where
  "startRecordingA_rejected s =
     (if startsInFlight s = 0 then s
      else s\<lparr>startsInFlight := startsInFlight s - 1,
             consoleErrors := consoleErrors s + 1\<rparr>)"

definition pauseRecordingA :: "app \<Rightarrow> app" where
  "pauseRecordingA s =
     (if \<not> recordPluginRef s then s
      else s\<lparr>captureCalls := captureCalls s @ [PauseRecordingCall],
             recorderState := Paused\<rparr>)"

definition resumeRecordingA :: "app \<Rightarrow> app" where
  "resumeRecordingA s =
     (if \<not> recordPluginRef s then s
      else s\<lparr>captureCalls := captureCalls s @ [ResumeRecordingCall],
             recorderState := Recording\<rparr>)"

text \<open>
  \<^verbatim>\<open>stopRecording\<close> (lines 143-150) only schedules its body, which runs 100 ms later.
\<close>

definition stopRecordingA :: "app \<Rightarrow> app" where
  "stopRecordingA s =
     (if \<not> recordPluginRef s then s else s\<lparr>stopTimeouts := stopTimeouts s + 1\<rparr>)"

definition stopRecordingA_timeout :: "app \<Rightarrow> app" where
  "stopRecordingA_timeout s =
     (if stopTimeouts s = 0 then s
      else (let s1 = s\<lparr>stopTimeouts := stopTimeouts s - 1\<rparr>;
                s2 = (if recordPluginRef s1
                      then s1\<lparr>captureCalls := captureCalls s1 @ [StopRecordingCall]\<rparr>
                      else s1)
            in s2\<lparr>recorderState := Finished\<rparr>))"

definition deleteRecording :: "app \<Rightarrow> app" where
  "deleteRecording s =
     (let s1 = (if wavesurferRef s then s\<lparr>viewCalls := viewCalls s @ [Empty]\<rparr> else s)
      in s1\<lparr>recorderState := Idle, duration := 0, currentTime := 0,
             recordedUrl := None, isPlaying := False\<rparr>)"

definition togglePlayback :: "app \<Rightarrow> app" where
  "togglePlayback s =
     (if \<not> wavesurferRef s then s else s\<lparr>viewCalls := viewCalls s @ [PlayPause]\<rparr>)"

definition handleUpload :: "app \<Rightarrow> app" where
  "handleUpload s = s"

text \<open>The listeners of lines 78-100; \<open>t\<close> is in milliseconds.\<close>

definition on_record_progressA :: "rat \<Rightarrow> app \<Rightarrow> app" where
  "on_record_progressA t s =
     (let currentSecs = t / 1000;
          s1 = s\<lparr>duration := currentSecs\<rparr>
      in if mode s = LIMITED \<and> currentSecs \<ge> maxDurationA then stopRecordingA s1 else s1)"

definition on_record_endA :: "blob \<Rightarrow> app \<Rightarrow> app" where
  "on_record_endA b s = s\<lparr>recordedUrl := Some b, viewCalls := viewCalls s @ [Load b]\<rparr>"

definition on_timeupdate :: "rat \<Rightarrow> app \<Rightarrow> app" where
  "on_timeupdate t s = s\<lparr>currentTime := t\<rparr>"

definition on_finishA :: "app \<Rightarrow> app" where
  "on_finishA s = s\<lparr>isPlaying := False\<rparr>"

definition on_play :: "app \<Rightarrow> app" where
  "on_play s = s\<lparr>isPlaying := True\<rparr>"

definition on_pause :: "app \<Rightarrow> app" where
  "on_pause s = s\<lparr>isPlaying := False\<rparr>"

text \<open>
  The buttons and the conditions under which the JSX of lines 236-327 renders them. A
  click reaches a handler only through a rendered button.
\<close>

datatype buttonA =
  RecordBtn | DeleteBtn | PauseBtn | ResumeBtn | StopBtn | PlayPauseBtn | UploadBtn

fun rendersA :: "session_state \<Rightarrow> buttonA \<Rightarrow> bool" where
  "rendersA st DeleteBtn = (st = Paused \<or> st = Recording \<or> st = Finished)"
| "rendersA st PauseBtn = ((st = Paused \<or> st = Recording \<or> st = Finished) \<and> st = Recording)"
| "rendersA st ResumeBtn = ((st = Paused \<or> st = Recording \<or> st = Finished) \<and> st = Paused)"
| "rendersA st RecordBtn = (st = Idle)"
| "rendersA st StopBtn = (st = Recording)"
| "rendersA st PlayPauseBtn = (st = Finished \<or> st = Paused)"
| "rendersA st UploadBtn = ((st = Finished \<or> st = Paused) \<and> st = Finished)"

fun handlerA :: "buttonA \<Rightarrow> app \<Rightarrow> app" where
  "handlerA RecordBtn = startRecordingA"
| "handlerA DeleteBtn = deleteRecording"
| "handlerA PauseBtn = pauseRecordingA"
| "handlerA ResumeBtn = resumeRecordingA"
| "handlerA StopBtn = stopRecordingA"
| "handlerA PlayPauseBtn = togglePlayback"
| "handlerA UploadBtn = handleUpload"

definition clickA :: "buttonA \<Rightarrow> app \<Rightarrow> app" where
  "clickA b s = (if rendersA (recorderState s) b then handlerA b s else s)"

datatype eventA =
  ClickA buttonA | StartResolved | StartRejected | StopTimeout
  | RecordProgressA rat | RecordEndA blob
  | TimeUpdate rat | FinishA | PlayEv | PauseEv

fun stepA :: "app \<Rightarrow> eventA \<Rightarrow> app" where
  "stepA s (ClickA b) = clickA b s"
| "stepA s StartResolved = startRecordingA_resolved s"
| "stepA s StartRejected = startRecordingA_rejected s"
| "stepA s StopTimeout = stopRecordingA_timeout s"
| "stepA s (RecordProgressA t) = on_record_progressA t s"
| "stepA s (RecordEndA b) = on_record_endA b s"
| "stepA s (TimeUpdate t) = on_timeupdate t s"
| "stepA s FinishA = on_finishA s"
| "stepA s PlayEv = on_play s"
| "stepA s PauseEv = on_pause s"

definition runA :: "app \<Rightarrow> eventA list \<Rightarrow> app" where
  "runA = foldl stepA"

text \<open>The component once mounted: the effect of lines 42-110 has filled both refs.\<close>

definition initA :: app where
  "initA = \<lparr>recorderState = Idle, duration = 0, currentTime = 0, mode = LIMITED,
            recordedUrl = None, isPlaying = False, recordPluginRef = True,
            wavesurferRef = True, captureCalls = [], viewCalls = [],
            startsInFlight = 0, stopTimeouts = 0, consoleErrors = 0\<rparr>"

text \<open>
  A user command carried to its end: the click, then what the click has set going (the
  promise of a start that succeeds, the 100 ms timeout of a stop, the \<^verbatim>\<open>record-end\<close>
  with which the plugin answers a stop that reached it).
\<close>

fun buttonOfA :: "command \<Rightarrow> buttonA" where
  "buttonOfA Start = RecordBtn"
| "buttonOfA Pause = PauseBtn"
| "buttonOfA Resume = ResumeBtn"
| "buttonOfA Stop = StopBtn"
| "buttonOfA Reset = DeleteBtn"

fun applyA :: "app \<Rightarrow> command \<Rightarrow> app" where
  "applyA s Start = startRecordingA_resolved (clickA RecordBtn s)"
| "applyA s Stop =
     (let s1 = stopRecordingA_timeout (clickA StopBtn s)
      in if captureCalls s1 = captureCalls s then s1 else on_record_endA 0 s1)"
| "applyA s c = clickA (buttonOfA c) s"

text \<open>What the controls of \<^verbatim>\<open>AudioRecorderApp\<close> do to the session state.\<close>

fun tableA :: "session_state \<Rightarrow> command \<Rightarrow> session_state" where
  "tableA Idle Start = Recording"
| "tableA Recording Pause = Paused"
| "tableA Paused Resume = Recording"
| "tableA Recording Stop = Finished"
| "tableA Finished Reset = Idle"
| "tableA Recording Reset = Idle"
| "tableA Paused Reset = Idle"
| "tableA s c = s"

subsection \<open>Recorder\<close>

datatype rmode = MIdle | MRecording | MPaused | MStopped | MPlaying

text \<open>
  The prop, the state cells and the refs of lines 5-15; a record stands for a mounted
  component, whose \<^verbatim>\<open>recordRef\<close> and \<^verbatim>\<open>wavesurferRef\<close> the effect of lines 49-109 has
  filled and nothing clears. The environment: the intervals set and not cleared, the
  next interval id, the calls made to the record plugin and to WaveSurfer, and the
  number of \<^verbatim>\<open>interaction\<close> listeners registered so far (each \<^verbatim>\<open>record-end\<close> adds
  one). The effect of lines 112-124, which only sets display options of the waveform,
  is left out.
\<close>

record recorder =
  maxDuration :: "int option"
  modeR :: rmode
  modeRef :: rmode
  blob :: "blob option"
  time :: int
  playbackTime :: int
  timerRef :: "nat option"
  intervals :: "nat list"
  nextInterval :: nat
  captureCallsR :: "capture_call list"
  viewCallsR :: "view_call list"
  interactionHandlers :: nat

definition truthy :: "int option \<Rightarrow> bool" where
  "truthy m = (case m of None \<Rightarrow> False | Some d \<Rightarrow> d \<noteq> 0)"

definition setMode :: "rmode \<Rightarrow> recorder \<Rightarrow> recorder" where
  "setMode newMode s = s\<lparr>modeRef := newMode, modeR := newMode\<rparr>"

definition startTimer :: "recorder \<Rightarrow> recorder" where
  "startTimer s =
     s\<lparr>timerRef := Some (nextInterval s),
       intervals := intervals s @ [nextInterval s],
       nextInterval := Suc (nextInterval s)\<rparr>"

definition stopTimer :: "recorder \<Rightarrow> recorder" where
  "stopTimer s =
     (case timerRef s of None \<Rightarrow> s
      | Some i \<Rightarrow> s\<lparr>intervals := removeAll i (intervals s)\<rparr>)"

text \<open>The callback of the interval (lines 25-35), run when interval \<open>i\<close> fires.\<close>

definition timer_callback :: "recorder \<Rightarrow> recorder" where
  "timer_callback s =
     (let newTime = time s + 1;
          s1 = (case maxDuration s of
                  None \<Rightarrow> s
                | Some d \<Rightarrow>
                    if d \<noteq> 0 \<and> newTime \<ge> d
                    then s\<lparr>captureCallsR := captureCallsR s @ [StopRecordingCall]\<rparr>
                    else s)
      in s1\<lparr>time := newTime\<rparr>)"

definition startRecordingR :: "recorder \<Rightarrow> recorder" where
  "startRecordingR s =
     (let s1 = setMode MRecording s;
          s2 = s1\<lparr>time := 0\<rparr>;
          s3 = s2\<lparr>captureCallsR := captureCallsR s2 @ [StartRecordingCall]\<rparr>
      in if \<not> truthy (maxDuration s) then startTimer s3 else s3)"

definition pauseRecordingR :: "recorder \<Rightarrow> recorder" where
  "pauseRecordingR s =
     (let s1 = s\<lparr>captureCallsR := captureCallsR s @ [PauseRecordingCall]\<rparr>;
          s2 = stopTimer s1
      in setMode MPaused s2)"

definition resumeRecordingR :: "recorder \<Rightarrow> recorder" where
  "resumeRecordingR s =
     (let s1 = s\<lparr>captureCallsR := captureCallsR s @ [ResumeRecordingCall]\<rparr>;
          s2 = (if \<not> truthy (maxDuration s) then startTimer s1 else s1)
      in setMode MRecording s2)"

definition stopRecordingR :: "recorder \<Rightarrow> recorder" where
  "stopRecordingR s =
     (if modeR s \<noteq> MRecording \<and> modeR s \<noteq> MPaused then s
      else s\<lparr>captureCallsR := captureCallsR s @ [StopRecordingCall]\<rparr>)"

definition play :: "recorder \<Rightarrow> recorder" where
  "play s = setMode MPlaying (s\<lparr>viewCallsR := viewCallsR s @ [PlayCall]\<rparr>)"

definition pause :: "recorder \<Rightarrow> recorder" where
  "pause s = setMode MStopped (s\<lparr>viewCallsR := viewCallsR s @ [PauseCall]\<rparr>)"

definition restart :: "recorder \<Rightarrow> recorder" where
  "restart s =
     (let s1 = stopTimer s;
          s2 = s1\<lparr>time := 0, playbackTime := 0, blob := None\<rparr>;
          s3 = setMode MIdle s2
      in s3\<lparr>viewCallsR := viewCallsR s3 @ [LoadBaseline, SeekToStart, HideCursor]\<rparr>)"

definition mockUpload :: "recorder \<Rightarrow> recorder" where
  "mockUpload s = s"

text \<open>The listeners of lines 80-104 and the cleanup of lines 106-108.\<close>

definition on_record_endR :: "blob \<Rightarrow> recorder \<Rightarrow> recorder" where
  "on_record_endR b s =
     (let s1 = s\<lparr>blob := Some b\<rparr>;
          s2 = setMode MStopped s1;
          s3 = stopTimer s2
      in s3\<lparr>viewCallsR := viewCallsR s3 @ [LoadBlob b, OnInteraction],
             interactionHandlers := Suc (interactionHandlers s3)\<rparr>)"

definition on_record_progressR :: "rat \<Rightarrow> recorder \<Rightarrow> recorder" where
  "on_record_progressR t s = s\<lparr>time := \<lfloor>t / 1000\<rfloor>\<rparr>"

definition on_audioprocess :: "rat \<Rightarrow> recorder \<Rightarrow> recorder" where
  "on_audioprocess pos s =
     (if modeRef s = MPlaying then s\<lparr>playbackTime := \<lfloor>pos\<rfloor>\<rparr> else s)"

definition on_finishR :: "recorder \<Rightarrow> recorder" where
  "on_finishR s = (setMode MStopped s)\<lparr>playbackTime := 0\<rparr>"

definition on_interaction :: "recorder \<Rightarrow> recorder" where
  "on_interaction s =
     (if interactionHandlers s = 0 then s
      else setMode MPlaying
             (s\<lparr>viewCallsR := viewCallsR s @ replicate (interactionHandlers s) PlayCall\<rparr>))"

definition cleanup :: "recorder \<Rightarrow> recorder" where
  "cleanup s = s\<lparr>viewCallsR := viewCallsR s @ [Destroy]\<rparr>"

text \<open>The buttons of lines 234-447 and the modes in which they are rendered.\<close>

datatype buttonR =
  StartBtnR | RestartBtn | PauseBtnR | ResumeBtnR | StopBtnR | PlayBtn | PausePlaybackBtn
  | UploadBtnR

fun rendersR :: "rmode \<Rightarrow> buttonR \<Rightarrow> bool" where
  "rendersR m StartBtnR = (m = MIdle)"
| "rendersR m RestartBtn = (m = MRecording \<or> m = MPaused \<or> (m = MStopped \<or> m = MPlaying))"
| "rendersR m PauseBtnR = (m = MRecording)"
| "rendersR m StopBtnR = (m = MRecording \<or> m = MPaused)"
| "rendersR m ResumeBtnR = (m = MPaused)"
| "rendersR m PlayBtn = ((m = MStopped \<or> m = MPlaying) \<and> m \<noteq> MPlaying)"
| "rendersR m PausePlaybackBtn = ((m = MStopped \<or> m = MPlaying) \<and> m = MPlaying)"
| "rendersR m UploadBtnR = (m = MStopped \<or> m = MPlaying)"

fun handlerR :: "buttonR \<Rightarrow> recorder \<Rightarrow> recorder" where
  "handlerR StartBtnR = startRecordingR"
| "handlerR RestartBtn = restart"
| "handlerR PauseBtnR = pauseRecordingR"
| "handlerR ResumeBtnR = resumeRecordingR"
| "handlerR StopBtnR = stopRecordingR"
| "handlerR PlayBtn = play"
| "handlerR PausePlaybackBtn = pause"
| "handlerR UploadBtnR = mockUpload"

definition clickR :: "buttonR \<Rightarrow> recorder \<Rightarrow> recorder" where
  "clickR b s = (if rendersR (modeR s) b then handlerR b s else s)"

text \<open>
  \<^verbatim>\<open>startRecording\<close> drops the promise of the plugin, so its rejection reaches no
  handler. Interval \<open>i\<close> fires only while it is set.
\<close>

datatype eventR =
  ClickR buttonR | StartRejectedR | Tick nat
  | RecordProgressR rat | RecordEndR blob
  | AudioProcess rat | FinishR | Interaction | Unmount

fun stepR :: "recorder \<Rightarrow> eventR \<Rightarrow> recorder" where
  "stepR s (ClickR b) = clickR b s"
| "stepR s StartRejectedR = s"
| "stepR s (Tick i) = (if i \<in> set (intervals s) then timer_callback s else s)"
| "stepR s (RecordProgressR t) = on_record_progressR t s"
| "stepR s (RecordEndR b) = on_record_endR b s"
| "stepR s (AudioProcess pos) = on_audioprocess pos s"
| "stepR s FinishR = on_finishR s"
| "stepR s Interaction = on_interaction s"
| "stepR s Unmount = cleanup s"

definition runR :: "recorder \<Rightarrow> eventR list \<Rightarrow> recorder" where
  "runR = foldl stepR"

definition initR :: "int option \<Rightarrow> recorder" where
  "initR md = \<lparr>maxDuration = md, modeR = MIdle, modeRef = MIdle, blob = None, time = 0,
               playbackTime = 0, timerRef = None, intervals = [], nextInterval = 1,
               captureCallsR = [], viewCallsR = [], interactionHandlers = 0\<rparr>"

text \<open>
  The session state a mode stands for: playback is a sub-state of \<open>Finished\<close>, and the
  JSX renders one group of controls for \<^verbatim>\<open>stopped\<close> and \<^verbatim>\<open>playing\<close>.
\<close>

fun sessionR :: "rmode \<Rightarrow> session_state" where
  "sessionR MIdle = Idle"
| "sessionR MRecording = Recording"
| "sessionR MPaused = Paused"
| "sessionR MStopped = Finished"
| "sessionR MPlaying = Finished"

fun buttonOfR :: "command \<Rightarrow> buttonR" where
  "buttonOfR Start = StartBtnR"
| "buttonOfR Pause = PauseBtnR"
| "buttonOfR Resume = ResumeBtnR"
| "buttonOfR Stop = StopBtnR"
| "buttonOfR Reset = RestartBtn"

text \<open>
  A user command carried to its end: a stop that reached the plugin is answered by its
  \<^verbatim>\<open>record-end\<close>.
\<close>

fun applyR :: "recorder \<Rightarrow> command \<Rightarrow> recorder" where
  "applyR s Stop =
     (let s1 = clickR StopBtnR s
      in if captureCallsR s1 = captureCallsR s then s1 else on_record_endR 0 s1)"
| "applyR s c = clickR (buttonOfR c) s"

text \<open>What the controls of \<^verbatim>\<open>Recorder\<close> do to the session state.\<close>

fun tableR :: "session_state \<Rightarrow> command \<Rightarrow> session_state" where
  "tableR Idle Start = Recording"
| "tableR Recording Pause = Paused"
| "tableR Paused Resume = Recording"
| "tableR Recording Stop = Finished"
| "tableR Paused Stop = Finished"
| "tableR Finished Reset = Idle"
| "tableR Recording Reset = Idle"
| "tableR Paused Reset = Idle"
| "tableR s c = s"

subsection \<open>Runs used in the statements\<close>

text \<open>
  Between two commands of a run nothing is pending: the plugin is there, no start is
  awaited and no stop timeout is scheduled.
\<close>

definition settledA :: "app \<Rightarrow> bool" where
  "settledA s = (recordPluginRef s \<and> startsInFlight s = 0 \<and> stopTimeouts s = 0)"

text \<open>Pause, resume, pause, resume, clicked with nothing in between.\<close>

definition pauseResumeTwiceA :: "eventA list" where
  "pauseResumeTwiceA = [ClickA PauseBtn, ClickA ResumeBtn, ClickA PauseBtn, ClickA ResumeBtn]"

definition pauseResumeTwiceR :: "eventR list" where
  "pauseResumeTwiceR =
     [ClickR PauseBtnR, ClickR ResumeBtnR, ClickR PauseBtnR, ClickR ResumeBtnR]"

text \<open>The events that accrue elapsed time in \<^verbatim>\<open>Recorder\<close>.\<close>

fun accrualR :: "eventR \<Rightarrow> bool" where
  "accrualR (Tick i) = True"
| "accrualR (RecordProgressR t) = True"
| "accrualR e = False"

text \<open>
  The notifications of playback, which WaveSurfer sends only once an artifact is loaded;
  and the shape of the interval bookkeeping on every run: an interval is set only while
  recording, and then it is the one \<^verbatim>\<open>timerRef\<close> holds.
\<close>

fun playbackR :: "eventR \<Rightarrow> bool" where
  "playbackR FinishR = True"
| "playbackR Interaction = True"
| "playbackR e = False"

definition interval_consistent :: "recorder \<Rightarrow> bool" where
  "interval_consistent s =
     (intervals s = [] \<or>
      (modeR s = MRecording \<and>
       (case timerRef s of None \<Rightarrow> False | Some i \<Rightarrow> intervals s = [i])))"

section \<open>Properties\<close>

lemmas handlersA_defs =
  startRecordingA_def startRecordingA_resolved_def startRecordingA_rejected_def
  pauseRecordingA_def resumeRecordingA_def stopRecordingA_def stopRecordingA_timeout_def
  deleteRecording_def togglePlayback_def handleUpload_def

lemmas handlersR_defs =
  startRecordingR_def pauseRecordingR_def resumeRecordingR_def stopRecordingR_def
  play_def pause_def restart_def mockUpload_def setMode_def startTimer_def stopTimer_def

lemmas listenersA_defs =
  on_record_progressA_def on_record_endA_def on_timeupdate_def on_finishA_def on_play_def
  on_pause_def

lemmas listenersR_defs =
  on_record_endR_def on_record_progressR_def on_audioprocess_def on_finishR_def
  on_interaction_def cleanup_def timer_callback_def

subsection \<open>The state after a sequence of commands\<close>

lemma applyA_table:
  assumes "settledA s"
  shows "settledA (applyA s c) \<and> recorderState (applyA s c) = tableA (recorderState s) c"
  using assms
  by (cases c; cases "recorderState s")
     (simp_all add: settledA_def clickA_def handlersA_defs on_record_endA_def Let_def)

lemma runA_table:
  "settledA s \<Longrightarrow>
     settledA (foldl applyA s cs)
     \<and> recorderState (foldl applyA s cs) = foldl tableA (recorderState s) cs"
proof (induction cs arbitrary: s)
  case Nil
  then show ?case by simp
next
  case (Cons c cs)
  from applyA_table [OF Cons.prems, of c] Cons.IH [of "applyA s c"]
  show ?case by simp
qed

lemma applyR_table:
  "sessionR (modeR (applyR s c)) = tableR (sessionR (modeR s)) c"
  by (cases c; cases "modeR s")
     (simp_all add: clickR_def handlersR_defs on_record_endR_def Let_def split: option.splits)

lemma runR_table:
  "sessionR (modeR (foldl applyR s cs)) = foldl tableR (sessionR (modeR s)) cs"
proof (induction cs arbitrary: s)
  case Nil
  show ?case by simp
next
  case (Cons c cs)
  show ?case using Cons.IH [of "applyR s c"] by (simp add: applyR_table)
qed

text \<open>
  C1, as the components have it. For every finite sequence of commands issued through
  the rendered controls from the mounted, idle component (in either mode of
  \<^verbatim>\<open>AudioRecorderApp\<close>, with or without a limit in \<^verbatim>\<open>Recorder\<close>), each carried to its end, the
  session state is the fold over the sequence of the component's own table: the
  documented table with reset leading to \<open>Idle\<close> from \<open>Recording\<close> and \<open>Paused\<close> as
  well, and in \<^verbatim>\<open>AudioRecorderApp\<close> without stop from \<open>Paused\<close>; every other pair keeps
  the state.
\<close>

theorem command_runs_follow_the_rendered_controls:
  "recorderState (foldl applyA (initA\<lparr>mode := m\<rparr>) cs) = foldl tableA Idle cs
   \<and> sessionR (modeR (foldl applyR (initR md) cs)) = foldl tableR Idle cs"
proof -
  have "settledA (initA\<lparr>mode := m\<rparr>)" by (simp add: settledA_def initA_def)
  from runA_table [OF this, of cs]
  have "recorderState (foldl applyA (initA\<lparr>mode := m\<rparr>) cs) = foldl tableA Idle cs"
    by (simp add: initA_def)
  moreover have "sessionR (modeR (foldl applyR (initR md) cs)) = foldl tableR Idle cs"
    using runR_table [of "initR md" cs] by (simp add: initR_def)
  ultimately show ?thesis by simp
qed

text \<open>
  The documented table is not what the components fold: after start and reset both are
  idle where the table stays in \<open>Recording\<close>, and \<^verbatim>\<open>AudioRecorderApp\<close> stays paused
  after start, pause, stop where the table finishes.
\<close>

theorem documented_table_counterexample:
  "recorderState (foldl applyA initA [Start, Reset]) \<noteq> foldl spec_transition Idle [Start, Reset]
   \<and> recorderState (foldl applyA initA [Start, Pause, Stop])
       \<noteq> foldl spec_transition Idle [Start, Pause, Stop]
   \<and> sessionR (modeR (foldl applyR (initR None) [Start, Reset]))
       \<noteq> foldl spec_transition Idle [Start, Reset]"
  by (simp add: initA_def initR_def clickA_def clickR_def handlersA_defs handlersR_defs
      truthy_def Let_def)

subsection \<open>The duration limit\<close>

text \<open>
  \<^verbatim>\<open>Recorder\<close> starts its interval only when no limit is set, and only the callback of
  the interval compares the time with the limit. With a limit no interval is ever set,
  so neither a tick nor a progress notification ends the recording.
\<close>

lemma accrual_without_interval:
  assumes "accrualR e" and "intervals s = []"
  shows "modeR (stepR s e) = modeR s \<and> captureCallsR (stepR s e) = captureCallsR s
         \<and> intervals (stepR s e) = []"
  using assms by (cases e) (simp_all add: on_record_progressR_def)

lemma accruals_without_interval:
  "list_all accrualR es \<Longrightarrow> intervals s = [] \<Longrightarrow>
     modeR (runR s es) = modeR s \<and> captureCallsR (runR s es) = captureCallsR s"
proof (induction es arbitrary: s)
  case Nil
  show ?case by (simp add: runR_def)
next
  case (Cons e es)
  from Cons.prems have e: "accrualR e" and es: "list_all accrualR es" by simp_all
  from accrual_without_interval [OF e Cons.prems(2)] Cons.IH [OF es, of "stepR s e"]
  show ?case by (simp add: runR_def)
qed

lemma limited_recorder_never_stops_itself:
  assumes "truthy md" and "list_all accrualR es"
  shows "modeR (runR (stepR (initR md) (ClickR StartBtnR)) es) = MRecording
       \<and> captureCallsR (runR (stepR (initR md) (ClickR StartBtnR)) es) = [StartRecordingCall]"
proof -
  let ?s = "stepR (initR md) (ClickR StartBtnR)"
  have "intervals ?s = []" "modeR ?s = MRecording" "captureCallsR ?s = [StartRecordingCall]"
    using assms(1) by (simp_all add: initR_def clickR_def handlersR_defs Let_def)
  with accruals_without_interval [OF assms(2), of ?s] show ?thesis by simp
qed

text \<open>
  C2, at the failing input: \<^verbatim>\<open>Recorder\<close> with \<^verbatim>\<open>maxDuration = 30\<close>, started, then progress
  notifications up to 32 s (and the ticks of an interval that was never set). The mode
  is still \<^verbatim>\<open>recording\<close>, the time is 32, and the plugin was never told to stop.
\<close>

theorem limit_never_enforced_in_recorder:
  "modeR (runR (initR (Some 30))
       [ClickR StartBtnR, RecordProgressR 29000, Tick 1, RecordProgressR 30000, Tick 1,
        RecordProgressR 31000, Tick 1, RecordProgressR 32000]) = MRecording
   \<and> time (runR (initR (Some 30))
       [ClickR StartBtnR, RecordProgressR 29000, Tick 1, RecordProgressR 30000, Tick 1,
        RecordProgressR 31000, Tick 1, RecordProgressR 32000]) = 32
   \<and> captureCallsR (runR (initR (Some 30))
       [ClickR StartBtnR, RecordProgressR 29000, Tick 1, RecordProgressR 30000, Tick 1,
        RecordProgressR 31000, Tick 1, RecordProgressR 32000]) = [StartRecordingCall]
   \<and> intervals (stepR (initR (Some 30)) (ClickR StartBtnR)) = []"
  by (simp add: runR_def initR_def clickR_def handlersR_defs listenersR_defs truthy_def Let_def)

text \<open>
  In \<^verbatim>\<open>AudioRecorderApp\<close> every progress notification at or past the limit schedules
  one more stop, whatever the state.
\<close>

lemma app_limit_schedules_stop:
  assumes "mode s = LIMITED" and "recordPluginRef s" and "30000 \<le> t"
  shows "stopTimeouts (on_record_progressA t s) = stopTimeouts s + 1"
  using assms by (simp add: on_record_progressA_def stopRecordingA_def maxDurationA_def Let_def)

text \<open>
  C3, at the failing input: \<^verbatim>\<open>AudioRecorderApp\<close> in limited mode, started, then two progress
  notifications past 30 s before the first 100 ms timeout runs. The first timeout
  stops the plugin and finishes the session; the second stops the plugin again.
\<close>

theorem limit_stops_capture_twice_in_app:
  "mode initA = LIMITED
   \<and> recorderState (runA initA
       [ClickA RecordBtn, StartResolved, RecordProgressA 30000, RecordProgressA 30016,
        StopTimeout]) = Finished
   \<and> captureCalls (runA initA
       [ClickA RecordBtn, StartResolved, RecordProgressA 30000, RecordProgressA 30016,
        StopTimeout]) = [StartRecordingCall, StopRecordingCall]
   \<and> captureCalls (runA initA
       [ClickA RecordBtn, StartResolved, RecordProgressA 30000, RecordProgressA 30016,
        StopTimeout, StopTimeout])
       = [StartRecordingCall, StopRecordingCall, StopRecordingCall]"
  by (simp add: runA_def initA_def clickA_def handlersA_defs listenersA_defs maxDurationA_def
        Let_def)

text \<open>
  The same missing guard lets the limit stop a session that a reset has made idle while
  the plugin still records: the next progress notification past the limit stops the
  plugin and finishes the idle session.
\<close>

lemma stop_in_idle_by_the_limit:
  "recorderState (runA initA [ClickA RecordBtn, StartResolved, ClickA DeleteBtn]) = Idle
   \<and> recorderState (runA initA
         [ClickA RecordBtn, StartResolved, ClickA DeleteBtn, RecordProgressA 30000,
          StopTimeout]) = Finished
   \<and> captureCalls (runA initA
         [ClickA RecordBtn, StartResolved, ClickA DeleteBtn, RecordProgressA 30000,
          StopTimeout]) = [StartRecordingCall, StopRecordingCall]"
  by (simp add: runA_def initA_def clickA_def handlersA_defs listenersA_defs maxDurationA_def
        Let_def)

subsection \<open>Commands the table does not list\<close>

text \<open>
  C4, as the components have it. When the user invokes a command other than reset that
  the documented table does not list for the current state, nothing happens: no field of
  the session changes and nothing is forwarded to the record plugin. No control is
  rendered for such a command, and \<^verbatim>\<open>stopRecording\<close> of \<^verbatim>\<open>Recorder\<close> returns at once
  outside \<open>Recording\<close> and \<open>Paused\<close>.
\<close>

theorem illegal_commands_are_not_offered:
  assumes "\<not> spec_legal st c" and "c \<noteq> Reset"
  shows "(recorderState a = st \<longrightarrow>
            \<not> rendersA (recorderState a) (buttonOfA c) \<and> clickA (buttonOfA c) a = a)
       \<and> (sessionR (modeR r) = st \<longrightarrow>
            \<not> rendersR (modeR r) (buttonOfR c) \<and> clickR (buttonOfR c) r = r
            \<and> (c = Stop \<longrightarrow> stopRecordingR r = r))"
  using assms
  by (cases c; cases st; cases "modeR r")
     (simp_all add: clickA_def clickR_def stopRecordingR_def)

theorem illegal_commands_are_not_offered_witness:
  "\<not> spec_legal Idle Stop \<and> Stop \<noteq> Reset
   \<and> \<not> rendersA (recorderState initA) StopBtn
   \<and> clickA StopBtn initA = initA
   \<and> \<not> rendersR (modeR (initR None)) StopBtnR
   \<and> clickR StopBtnR (initR None) = initR None
   \<and> stopRecordingR (initR None) = initR None"
  using illegal_commands_are_not_offered [of Idle Stop initA "initR None"]
  by (simp add: initA_def initR_def)

text \<open>
  Reset while recording is not in the documented table, yet both components render its
  control then, and the click changes the session: it is idle afterwards.
\<close>

theorem silent_noop_counterexample:
  "\<not> spec_legal Recording Reset
   \<and> recorderState (applyA initA Start) = Recording
   \<and> rendersA (recorderState (applyA initA Start)) DeleteBtn
   \<and> clickA DeleteBtn (applyA initA Start) \<noteq> applyA initA Start
   \<and> recorderState (clickA DeleteBtn (applyA initA Start)) = Idle
   \<and> sessionR (modeR (applyR (initR None) Start)) = Recording
   \<and> rendersR (modeR (applyR (initR None) Start)) RestartBtn
   \<and> clickR RestartBtn (applyR (initR None) Start) \<noteq> applyR (initR None) Start
   \<and> sessionR (modeR (clickR RestartBtn (applyR (initR None) Start))) = Idle"
  by (simp add: initA_def initR_def clickA_def clickR_def handlersA_defs handlersR_defs
      truthy_def Let_def)

subsection \<open>A start that fails\<close>

text \<open>
  \<^verbatim>\<open>AudioRecorderApp\<close> awaits the plugin and touches its state only afterwards: a
  rejected start leaves the session as it was and logs one error.
\<close>

lemma failed_start_in_app:
  assumes "recorderState s = Idle" and "recordPluginRef s" and "startsInFlight s = 0"
  shows "runA s [ClickA RecordBtn, StartRejected]
         = s\<lparr>captureCalls := captureCalls s @ [StartRecordingCall],
              consoleErrors := consoleErrors s + 1\<rparr>"
  using assms by (simp add: runA_def clickA_def handlersA_defs)

text \<open>
  C5, at the failing input: \<^verbatim>\<open>Recorder\<close>, idle, start clicked and the plugin's promise
  rejected. The mode was set before the plugin was called and nothing handles the
  rejection: the session is left recording, with the interval running when no limit is
  set.
\<close>

theorem failed_start_leaves_recorder_recording:
  "modeR (runR (initR None) [ClickR StartBtnR, StartRejectedR]) = MRecording
   \<and> sessionR (modeR (runR (initR None) [ClickR StartBtnR, StartRejectedR])) \<noteq> Idle
   \<and> intervals (runR (initR None) [ClickR StartBtnR, StartRejectedR]) = [1]
   \<and> modeR (runR (initR (Some 30)) [ClickR StartBtnR, StartRejectedR]) = MRecording"
  by (simp add: runR_def initR_def clickR_def handlersR_defs truthy_def Let_def)

subsection \<open>The interval of Recorder\<close>

text \<open>
  On every run an interval is set only while the session records, so every click and
  every notification that leaves \<open>Recording\<close> clears it. The cleanup of the effect is
  the exception: it leaves everything as it is, an interval included.
\<close>

lemma interval_only_while_recording:
  assumes "interval_consistent s"
    and "playbackR e \<Longrightarrow> sessionR (modeR s) = Finished"
  shows "interval_consistent (stepR s e)"
proof (cases e)
  case (ClickR b)
  with assms(1) show ?thesis
    by (cases b; cases "modeR s")
       (auto simp: interval_consistent_def clickR_def handlersR_defs Let_def
          split: option.splits)
next
  case FinishR
  with assms show ?thesis
    by (cases "modeR s") (auto simp: interval_consistent_def on_finishR_def setMode_def)
next
  case Interaction
  with assms show ?thesis
    by (cases "modeR s") (auto simp: interval_consistent_def on_interaction_def setMode_def)
qed (use assms(1) in \<open>auto simp: interval_consistent_def listenersR_defs setMode_def
       stopTimer_def Let_def split: option.splits\<close>)

lemma cleanup_keeps_intervals: "intervals (stepR s Unmount) = intervals s"
  by (simp add: cleanup_def)

text \<open>
  When the plugin that the cleanup destroys ends a running capture with its
  \<^verbatim>\<open>record-end\<close>, the listener of the component clears the interval. The cleanup
  itself clears nothing, so the interval stays when there is no capture to end.
\<close>

lemma record_end_after_unmount_clears_interval:
  "intervals (runR (initR None) [ClickR StartBtnR, Unmount, RecordEndR 0]) = []"
  by (simp add: runR_def initR_def clickR_def handlersR_defs listenersR_defs truthy_def Let_def)

text \<open>
  C6, at the failing input: \<^verbatim>\<open>Recorder\<close> without a limit, start clicked, the promise of
  the plugin rejected (no capture begins), then unmounted. \<^verbatim>\<open>startRecording\<close> has set
  the interval; the cleanup destroys WaveSurfer and leaves the interval set, with no
  call to stop the plugin and no \<^verbatim>\<open>record-end\<close> to come. Pause, a stop answered by
  \<^verbatim>\<open>record-end\<close>, and restart do clear the interval.
\<close>

theorem unmount_leaves_interval_running:
  "modeR (runR (initR None) [ClickR StartBtnR, StartRejectedR]) = MRecording
   \<and> intervals (runR (initR None) [ClickR StartBtnR, StartRejectedR]) = [1]
   \<and> intervals (runR (initR None) [ClickR StartBtnR, StartRejectedR, Unmount]) = [1]
   \<and> timerRef (runR (initR None) [ClickR StartBtnR, StartRejectedR, Unmount]) = Some 1
   \<and> captureCallsR (runR (initR None) [ClickR StartBtnR, StartRejectedR, Unmount])
       = [StartRecordingCall]
   \<and> intervals (runR (initR None) [ClickR StartBtnR, ClickR PauseBtnR]) = []
   \<and> intervals (runR (initR None) [ClickR StartBtnR, ClickR StopBtnR, RecordEndR 0]) = []
   \<and> intervals (runR (initR None) [ClickR StartBtnR, ClickR RestartBtn]) = []"
  by (simp add: runR_def initR_def clickR_def handlersR_defs listenersR_defs truthy_def Let_def)

subsection \<open>Playback\<close>

text \<open>
  C7. While the session is finished, the playback controls and every playback
  notification of the view (position, play, pause, finish, interaction) keep the session
  finished and leave the elapsed time, the artifact, the calls to the record plugin and
  the interval untouched.
\<close>

theorem playback_leaves_the_session_alone:
  "(recorderState a = Finished \<longrightarrow>
      (\<forall>e \<in> {ClickA PlayPauseBtn, TimeUpdate pos, PlayEv, PauseEv, FinishA}.
         recorderState (stepA a e) = Finished \<and> duration (stepA a e) = duration a
         \<and> recordedUrl (stepA a e) = recordedUrl a
         \<and> captureCalls (stepA a e) = captureCalls a))
   \<and> (sessionR (modeR r) = Finished \<longrightarrow>
      (\<forall>e \<in> {ClickR PlayBtn, ClickR PausePlaybackBtn, AudioProcess pos, FinishR, Interaction}.
         sessionR (modeR (stepR r e)) = Finished \<and> time (stepR r e) = time r
         \<and> blob (stepR r e) = blob r
         \<and> captureCallsR (stepR r e) = captureCallsR r
         \<and> intervals (stepR r e) = intervals r))"
  by (cases "modeR r")
     (simp_all add: clickA_def clickR_def handlersA_defs handlersR_defs listenersA_defs
        listenersR_defs)

theorem playback_leaves_the_session_alone_witness:
  "recorderState (foldl applyA initA [Start, Stop]) = Finished
   \<and> recorderState (stepA (foldl applyA initA [Start, Stop]) (ClickA PlayPauseBtn)) = Finished
   \<and> duration (stepA (foldl applyA initA [Start, Stop]) (TimeUpdate 3)) = 0
   \<and> sessionR (modeR (foldl applyR (initR None) [Start, Stop])) = Finished
   \<and> modeR (stepR (foldl applyR (initR None) [Start, Stop]) (ClickR PlayBtn)) = MPlaying
   \<and> sessionR (modeR (stepR (foldl applyR (initR None) [Start, Stop]) (ClickR PlayBtn)))
       = Finished
   \<and> time (stepR (foldl applyR (initR None) [Start, Stop]) (AudioProcess 3)) = 0"
  using playback_leaves_the_session_alone
    [of "foldl applyA initA [Start, Stop]" 3 "foldl applyR (initR None) [Start, Stop]"]
  by (simp add: initA_def initR_def clickA_def clickR_def handlersA_defs handlersR_defs
        listenersA_defs listenersR_defs truthy_def Let_def)

subsection \<open>Reset\<close>

text \<open>
  C8, as the components have it. Reset is rendered in every state but \<open>Idle\<close>, and there
  it returns the session to \<open>Idle\<close> with the artifact absent and the elapsed time 0; in
  \<open>Idle\<close> it is not rendered and a click changes nothing.
\<close>

theorem reset_returns_to_idle_from_every_state:
  "(recorderState a \<noteq> Idle \<longrightarrow>
      recorderState (clickA DeleteBtn a) = Idle \<and> recordedUrl (clickA DeleteBtn a) = None
      \<and> duration (clickA DeleteBtn a) = 0)
   \<and> (recorderState a = Idle \<longrightarrow> clickA DeleteBtn a = a)
   \<and> (modeR r \<noteq> MIdle \<longrightarrow>
      modeR (clickR RestartBtn r) = MIdle \<and> blob (clickR RestartBtn r) = None
      \<and> time (clickR RestartBtn r) = 0)
   \<and> (modeR r = MIdle \<longrightarrow> clickR RestartBtn r = r)"
  by (cases "recorderState a"; cases "modeR r")
     (simp_all add: clickA_def clickR_def handlersA_defs handlersR_defs Let_def
        split: option.splits)

theorem reset_returns_to_idle_from_every_state_witness:
  "recorderState (applyA initA Start) \<noteq> Idle
   \<and> recorderState (clickA DeleteBtn (applyA initA Start)) = Idle
   \<and> recorderState initA = Idle \<and> clickA DeleteBtn initA = initA
   \<and> modeR (applyR (initR None) Start) \<noteq> MIdle
   \<and> modeR (clickR RestartBtn (applyR (initR None) Start)) = MIdle
   \<and> modeR (initR None) = MIdle \<and> clickR RestartBtn (initR None) = initR None"
  using reset_returns_to_idle_from_every_state [of "applyA initA Start" "applyR (initR None) Start"]
    reset_returns_to_idle_from_every_state [of initA "initR None"]
  by (simp add: initA_def initR_def clickA_def clickR_def handlersA_defs handlersR_defs
        truthy_def Let_def)

text \<open>Reset while recording is no no-op: both components return to \<open>Idle\<close>.\<close>

theorem reset_noop_counterexample:
  "recorderState (applyA initA Start) = Recording
   \<and> recorderState (clickA DeleteBtn (applyA initA Start)) = Idle
   \<and> clickA DeleteBtn (applyA initA Start) \<noteq> applyA initA Start
   \<and> modeR (applyR (initR None) Start) = MRecording
   \<and> modeR (clickR RestartBtn (applyR (initR None) Start)) = MIdle
   \<and> deleteRecording (applyA initA Start) \<noteq> applyA initA Start
   \<and> restart (applyR (initR None) Start) \<noteq> applyR (initR None) Start"
  by (simp add: initA_def initR_def clickA_def clickR_def handlersA_defs handlersR_defs
        truthy_def Let_def)

subsection \<open>Pause and resume\<close>

text \<open>
  C9. From a recording session, pause, resume, pause, resume with nothing in between
  leaves the elapsed time, the state and the artifact as they were, so the session is
  where the run that never paused is; the next progress notification or tick then
  yields the same elapsed time in both. Only the log of calls grows, and in \<^verbatim>\<open>Recorder\<close>
  without a limit a fresh interval replaces the old one.
\<close>

theorem pause_resume_keeps_elapsed_time:
  "(recorderState a = Recording \<and> recordPluginRef a \<longrightarrow>
      duration (runA a pauseResumeTwiceA) = duration a
      \<and> recorderState (runA a pauseResumeTwiceA) = Recording
      \<and> runA a pauseResumeTwiceA
          = a\<lparr>captureCalls := captureCalls a @
               [PauseRecordingCall, ResumeRecordingCall, PauseRecordingCall,
                ResumeRecordingCall]\<rparr>
      \<and> duration (stepA (runA a pauseResumeTwiceA) (RecordProgressA t))
          = duration (stepA a (RecordProgressA t)))
   \<and> (modeR r = MRecording \<longrightarrow>
      time (runR r pauseResumeTwiceR) = time r
      \<and> modeR (runR r pauseResumeTwiceR) = MRecording
      \<and> blob (runR r pauseResumeTwiceR) = blob r
      \<and> time (stepR (runR r pauseResumeTwiceR) (RecordProgressR t))
          = time (stepR r (RecordProgressR t))
      \<and> time (timer_callback (runR r pauseResumeTwiceR)) = time (timer_callback r)
      \<and> (\<not> truthy (maxDuration r) \<longrightarrow>
            timerRef (runR r pauseResumeTwiceR) = Some (Suc (nextInterval r))
            \<and> Suc (nextInterval r) \<in> set (intervals (runR r pauseResumeTwiceR))))"
  by (simp add: runA_def runR_def pauseResumeTwiceA_def pauseResumeTwiceR_def
        clickA_def clickR_def handlersA_defs handlersR_defs listenersA_defs listenersR_defs
        Let_def split: option.splits)

theorem pause_resume_keeps_elapsed_time_witness:
  "recorderState (runA initA [ClickA RecordBtn, StartResolved, RecordProgressA 5000]) = Recording
   \<and> recordPluginRef (runA initA [ClickA RecordBtn, StartResolved, RecordProgressA 5000])
   \<and> duration (runA (runA initA [ClickA RecordBtn, StartResolved, RecordProgressA 5000])
        pauseResumeTwiceA) = 5
   \<and> modeR (runR (initR None) [ClickR StartBtnR, Tick 1, Tick 1]) = MRecording
   \<and> time (runR (runR (initR None) [ClickR StartBtnR, Tick 1, Tick 1]) pauseResumeTwiceR) = 2
   \<and> intervals (runR (runR (initR None) [ClickR StartBtnR, Tick 1, Tick 1]) pauseResumeTwiceR)
       = [3]"
  using pause_resume_keeps_elapsed_time
    [of "runA initA [ClickA RecordBtn, StartResolved, RecordProgressA 5000]"
        6000 "runR (initR None) [ClickR StartBtnR, Tick 1, Tick 1]"]
  by (simp add: runA_def runR_def initA_def initR_def pauseResumeTwiceA_def
        pauseResumeTwiceR_def clickA_def clickR_def handlersA_defs handlersR_defs
        listenersA_defs listenersR_defs maxDurationA_def truthy_def Let_def)

subsection \<open>Minutes and seconds\<close>

text \<open>The binary exponent, and what rounding does to natural numbers.\<close>

lemma ilog2_bounds_ge1:
  assumes "1 \<le> x"
  shows "2 powi ilog2 x \<le> x \<and> x < 2 powi (ilog2 x + 1)"
proof -
  define m where "m = nat \<lfloor>x\<rfloor>"
  define L where "L = floorlog 2 m"
  have m1: "1 \<le> m" using assms by (simp add: m_def le_nat_iff)
  have f0: "0 \<le> \<lfloor>x\<rfloor>" using assms by simp
  have mx: "of_nat m \<le> x" "x < of_nat m + 1"
    using floor_correct [of x] f0 by (simp_all add: m_def)
  from floorlog_bounds [of m 2] m1 have b: "2 ^ (L - 1) \<le> m" "m < 2 ^ L"
    by (simp_all add: L_def)
  have L1: "1 \<le> L" using b(2) m1 by (cases L) simp_all
  have e: "ilog2 x = int L - 1" using assms by (simp add: ilog2_def m_def L_def)
  have p1: "(2::rat) powi (int L - 1) = 2 ^ (L - 1)"
    using L1 by (simp add: power_int_def nat_diff_distrib)
  have p2: "(2::rat) powi (int L - 1 + 1) = 2 ^ L" by simp
  have "(2::rat) ^ (L - 1) \<le> of_nat m" using b(1) by (metis of_nat_le_iff of_nat_numeral of_nat_power)
  then have "(2::rat) ^ (L - 1) \<le> x" using mx(1) by (rule order_trans)
  then have lo: "2 powi ilog2 x \<le> x" by (simp only: e p1)
  have "m + 1 \<le> 2 ^ L" using b(2) by simp
  then have "(of_nat (m + 1) :: rat) \<le> 2 ^ L" by (metis of_nat_le_iff of_nat_numeral of_nat_power)
  then have "x < 2 ^ L" using mx(2) by simp
  then have hi: "x < 2 powi (ilog2 x + 1)" by (simp only: e p2)
  from lo hi show ?thesis by simp
qed

lemma ilog2_bounds_lt1:
  assumes "0 < x" "x < 1"
  shows "2 powi ilog2 x \<le> x \<and> x < 2 powi (ilog2 x + 1)"
proof -
  define y where "y = 1 / x"
  define c where "c = nat (\<lceil>y\<rceil> - 1)"
  define L where "L = floorlog 2 c"
  have y1: "1 < y" using assms by (simp add: y_def)
  then have cy: "2 \<le> \<lceil>y\<rceil>" by (simp add: less_ceiling_iff)
  then have c1: "1 \<le> c" unfolding c_def by linarith
  have "of_int (\<lceil>y\<rceil> - 1) < y" "y \<le> of_int \<lceil>y\<rceil>"
    by (simp_all add: le_of_int_ceiling) (metis ceiling_correct diff_add_cancel of_int_1 of_int_add of_int_diff)
  then have yc: "of_nat c < y" "y \<le> of_nat c + 1"
    using cy by (simp_all add: c_def)
  from floorlog_bounds [of c 2] c1 have b: "2 ^ (L - 1) \<le> c" "c < 2 ^ L"
    by (simp_all add: L_def)
  have L1: "1 \<le> L" using b(2) c1 by (cases L) simp_all
  have e: "ilog2 x = - int L" using assms by (simp add: ilog2_def c_def L_def y_def)
  have "c + 1 \<le> 2 ^ L" using b(2) by simp
  then have "(of_nat (c + 1) :: rat) \<le> 2 ^ L" by (metis of_nat_le_iff of_nat_numeral of_nat_power)
  then have yhi: "y \<le> 2 ^ L" using yc(2) by simp
  have "(2::rat) ^ (L - 1) \<le> of_nat c" using b(1) by (metis of_nat_le_iff of_nat_numeral of_nat_power)
  then have ylo: "2 ^ (L - 1) < y" using yc(1) by (rule le_less_trans)
  have x: "x = 1 / y" using assms by (simp add: y_def)
  have p1: "(2::rat) powi (- int L) = 1 / 2 ^ L"
    by (simp only: power_int_minus_divide power_int_of_nat)
  have p2: "(2::rat) powi (- int L + 1) = 1 / 2 ^ (L - 1)"
  proof -
    have eq: "- int L + 1 = - int (L - 1)" using L1 by simp
    show ?thesis by (subst eq) (simp only: power_int_minus_divide power_int_of_nat)
  qed
  have lo: "1 / 2 ^ L \<le> x" using yhi y1 unfolding x by (simp add: field_simps)
  have hi: "x < 1 / 2 ^ (L - 1)" using ylo y1 unfolding x by (simp add: field_simps)
  from lo hi show ?thesis by (simp only: e p1 p2)
qed

lemma ilog2_bounds:
  "0 < x \<Longrightarrow> 2 powi ilog2 x \<le> x \<and> x < 2 powi (ilog2 x + 1)"
  using ilog2_bounds_ge1 [of x] ilog2_bounds_lt1 [of x] by (cases "1 \<le> x") simp_all

lemma pow2_less_D:
  assumes "(2::rat) powi a < 2 powi b"
  shows "a < b"
proof (rule ccontr)
  assume "\<not> a < b"
  then have "b \<le> a" by simp
  then have "(2::rat) powi b \<le> 2 powi a" by (intro power_int_increasing) simp_all
  with assms show False by simp
qed

lemma pow2_le_D:
  assumes "(2::rat) powi a \<le> 2 powi b"
  shows "a \<le> b"
proof (rule ccontr)
  assume "\<not> a \<le> b"
  then have "b < a" by simp
  then have "(2::rat) powi b < 2 powi a" by (intro power_int_strict_increasing) simp_all
  with assms show False by simp
qed

lemma ilog2_eqI:
  assumes "2 powi e \<le> x" and "x < 2 powi (e + 1)"
  shows "ilog2 x = e"
proof -
  have x0: "0 < x" using assms(1) by (meson less_le_trans zero_less_numeral zero_less_power_int)
  from ilog2_bounds [OF x0] have b: "2 powi ilog2 x \<le> x" "x < 2 powi (ilog2 x + 1)" by simp_all
  have "(2::rat) powi e < 2 powi (ilog2 x + 1)" using assms(1) b(2) by simp
  then have 1: "e < ilog2 x + 1" by (rule pow2_less_D)
  have "(2::rat) powi ilog2 x < 2 powi (e + 1)" using assms(2) b(1) by simp
  then have 2: "ilog2 x < e + 1" by (rule pow2_less_D)
  from 1 2 show ?thesis by simp
qed

lemma rne_ge_floor: "\<lfloor>y\<rfloor> \<le> rne y"
  by (simp add: rne_def Let_def)

lemma rne_le: "of_int (rne y) \<le> y + 1 / 2"
proof -
  have "of_int \<lfloor>y\<rfloor> \<le> y" by simp
  then show ?thesis unfolding rne_def Let_def by (simp split: if_splits) linarith
qed

lemma rne_of_int: "rne (of_int m) = m"
  by (simp add: rne_def)


text \<open>
  A natural number up to \<open>2 ^ 53\<close> is a double; a larger one rounds to \<open>2 ^ 53\<close> at
  least.
\<close>

lemma fl_eq:
  assumes "x \<noteq> 0"
  shows "fl x = of_int (rne (x / 2 powi (max (ilog2 \<bar>x\<bar> - 52) (- 1074))))
                * 2 powi (max (ilog2 \<bar>x\<bar> - 52) (- 1074))"
  using assms by (simp add: fl_def Let_def)

lemma fl_nat_exact:
  assumes "n \<le> 2 ^ 53"
  shows "fl (of_nat n) = of_nat n"
proof (cases "n = 0")
  case True
  then show ?thesis by (simp add: fl_def)
next
  case False
  define x :: rat where "x = of_nat n"
  define e where "e = ilog2 x"
  define k where "k = max (e - 52) (- 1074)"
  have x1: "1 \<le> x" using False by (simp add: x_def)
  then have x0: "0 < x" by simp
  from ilog2_bounds [OF x0] have b: "2 powi e \<le> x" "x < 2 powi (e + 1)"
    by (simp_all add: e_def)
  have "x \<le> 2 ^ 53" using assms unfolding x_def
    by (metis of_nat_le_iff of_nat_numeral of_nat_power)
  then have "(2::rat) powi e \<le> 2 powi 53" using b(1) by simp
  then have e53: "e \<le> 53" by (rule pow2_le_D)
  have "(2::rat) powi 0 < 2 powi (e + 1)" using x1 b(2) by simp
  then have "0 < e + 1" by (rule pow2_less_D)
  then have e0: "0 \<le> e" by simp
  have k: "k = e - 52" using e0 by (simp add: k_def)
  have "\<exists>m. x / 2 powi k = of_int m"
  proof (cases "e = 53")
    case True
    then have "2 powi 53 \<le> x" using b(1) by simp
    with \<open>x \<le> 2 ^ 53\<close> have "x = 2 ^ 53" by simp
    then have "x / 2 powi k = of_int (2 ^ 52)" using True by (simp add: k)
    then show ?thesis by blast
  next
    case False
    with e53 have "e \<le> 52" by simp
    define j where "j = nat (- k)"
    have j: "k = - int j" using \<open>e \<le> 52\<close> by (simp add: j_def k)
    have "x / 2 powi k = x * 2 ^ j" by (simp add: j power_int_minus_divide)
    also have "\<dots> = of_int (int n * 2 ^ j)" by (simp add: x_def)
    finally show ?thesis by blast
  qed
  then obtain m where m: "x / 2 powi k = of_int m" by blast
  have "fl x = of_int (rne (x / 2 powi k)) * 2 powi k"
    using x0 fl_eq [of x] by (simp add: k_def e_def)
  also have "\<dots> = of_int m * 2 powi k" by (simp add: m rne_of_int)
  also have "\<dots> = x / 2 powi k * 2 powi k" by (simp add: m)
  also have "\<dots> = x" by simp
  finally show ?thesis by (simp add: x_def)
qed


lemma fl_nat_big:
  assumes "2 ^ 53 < n"
  shows "2 ^ 53 \<le> fl (of_nat n)"
proof -
  define x :: rat where "x = of_nat n"
  define e where "e = ilog2 x"
  define k where "k = max (e - 52) (- 1074)"
  have "(of_nat (2 ^ 53) :: rat) < of_nat n" using assms by (simp only: of_nat_less_iff)
  then have xb: "2 ^ 53 < x" by (simp add: x_def)
  then have x0: "0 < x" by (meson less_trans zero_less_numeral zero_less_power)
  from ilog2_bounds [OF x0] have b: "2 powi e \<le> x" "x < 2 powi (e + 1)"
    by (simp_all add: e_def)
  have "(2::rat) powi 53 < 2 powi (e + 1)" using xb b(2) by simp
  then have "53 < e + 1" by (rule pow2_less_D)
  then have e53: "53 \<le> e" by simp
  have k: "k = e - 52" using e53 by (simp add: k_def)
  have q0: "0 < (2::rat) powi k" by simp
  have split: "(2::rat) powi e = 2 powi 52 * 2 powi k"
    unfolding k using power_int_add [of "2::rat" 52 "e - 52"] by simp
  have "of_int (2 ^ 52) = (2::rat) powi 52" by simp
  also have "\<dots> = 2 powi e / 2 powi k" by (simp add: split)
  also have "\<dots> \<le> x / 2 powi k" using b(1) q0 by (simp add: divide_right_mono)
  finally have "2 ^ 52 \<le> \<lfloor>x / 2 powi k\<rfloor>" by (simp only: le_floor_iff)
  then have "2 ^ 52 \<le> rne (x / 2 powi k)" using rne_ge_floor [of "x / 2 powi k"] by linarith
  then have "(of_int (2 ^ 52) :: rat) \<le> of_int (rne (x / 2 powi k))" by (simp only: of_int_le_iff)
  then have C: "(of_int (2 ^ 52) :: rat) * 2 powi k \<le> of_int (rne (x / 2 powi k)) * 2 powi k"
    using q0 by (simp only: mult_le_cancel_right_pos)
  have D: "fl x = of_int (rne (x / 2 powi k)) * 2 powi k"
    using x0 fl_eq [of x] by (simp add: k_def e_def)
  have B: "(2::rat) powi e = of_int (2 ^ 52) * 2 powi k" using split by simp
  have "(2::rat) powi 53 \<le> 2 powi e" using e53 by (intro power_int_increasing) simp_all
  also have "\<dots> = of_int (2 ^ 52) * 2 powi k" by (rule B)
  also have "\<dots> \<le> of_int (rne (x / 2 powi k)) * 2 powi k" by (rule C)
  also have "\<dots> = fl x" by (simp only: D)
  finally have "(2::rat) powi 53 \<le> fl x" .
  then show ?thesis by (simp add: x_def)
qed

lemma fl_nat_inj:
  assumes "x < 2 ^ 53" and "fl (of_nat v) = of_nat x"
  shows "v = x"
proof (cases "v \<le> 2 ^ 53")
  case True
  from fl_nat_exact [OF True] assms(2) have "(of_nat v :: rat) = of_nat x" by simp
  then show ?thesis by (simp only: of_nat_eq_iff)
next
  case False
  then have "2 ^ 53 < v" by simp
  from fl_nat_big [OF this] assms(2) have "(2::rat) ^ 53 \<le> of_nat x" by simp
  then have "(of_nat (2 ^ 53) :: rat) \<le> of_nat x" by simp
  then have "2 ^ 53 \<le> x" by (simp only: of_nat_le_iff)
  with assms(1) show ?thesis by simp
qed

lemma floor_fl_div60:
  assumes "s < 2 ^ 53"
  shows "\<lfloor>fl (of_nat s / 60)\<rfloor> = int (s div 60)"
proof (cases "s = 0")
  case True
  then show ?thesis by (simp add: fl_def)
next
  case False
  define x :: rat where "x = of_nat s / 60"
  define e where "e = ilog2 x"
  define k where "k = max (e - 52) (- 1074)"
  define m where "m = s div 60"
  have x0: "0 < x" using False by (simp add: x_def)
  have s: "(of_nat s :: rat) = 60 * of_nat m + of_nat (s mod 60)"
    unfolding m_def by (metis mult_div_mod_eq of_nat_add of_nat_mult of_nat_numeral)
  have "s mod 60 < 60" by simp
  then have "s mod 60 \<le> 59" by linarith
  then have "(of_nat (s mod 60) :: rat) \<le> of_nat 59" by (simp only: of_nat_le_iff)
  then have r59: "(of_nat (s mod 60) :: rat) \<le> 59" by simp
  have r0: "(0::rat) \<le> of_nat (s mod 60)" by simp
  have xm: "of_nat m \<le> x" "x \<le> of_nat m + 59 / 60"
    using r59 r0 unfolding x_def s by (simp_all add: field_simps)
  have "(of_nat s :: rat) < of_nat (2 ^ 53)" using assms by (simp only: of_nat_less_iff)
  then have "x < 2 ^ 53 / 60" by (simp add: x_def)
  also have "\<dots> < 2 powi 48" by simp
  finally have xb: "x < 2 powi 48" .
  from ilog2_bounds [OF x0] have b: "2 powi e \<le> x" "x < 2 powi (e + 1)"
    by (simp_all add: e_def)
  have "(2::rat) powi e < 2 powi 48" using b(1) xb by simp
  then have "e < 48" by (rule pow2_less_D)
  then have e47: "e \<le> 47" by simp
  have k5: "k \<le> - 5" using e47 by (simp add: k_def)
  define j where "j = nat (- k)"
  have j: "k = - int j" using k5 by (simp add: j_def)
  have j5: "5 \<le> j" using k5 j by simp
  define q :: rat where "q = 2 powi k"
  have q0: "0 < q" by (simp add: q_def)
  have qj: "q = 1 / 2 ^ j" by (simp add: q_def j power_int_minus_divide)
  have "(2::rat) powi k \<le> 2 powi (- 5)" using k5 by (intro power_int_increasing) simp_all
  then have q32: "q \<le> 1 / 32" by (simp add: q_def power_int_minus_divide)
  have flx: "fl x = of_int (rne (x / q)) * q"
    using x0 fl_eq [of x] by (simp add: k_def e_def q_def)
  have "of_int (rne (x / q)) \<le> x / q + 1 / 2" by (rule rne_le)
  then have "of_int (rne (x / q)) * q \<le> (x / q + 1 / 2) * q"
    using q0 by (simp only: mult_le_cancel_right_pos)
  also have "\<dots> = x + q / 2" using q0 by (simp add: field_simps)
  also have "\<dots> < of_nat m + 1" using xm(2) q32 by simp
  finally have up: "fl x < of_int (int m) + 1" by (simp add: flx)
  have "of_int (int m * 2 ^ j) = of_nat m / q" by (simp add: qj)
  also have "\<dots> \<le> x / q" using xm(1) q0 by (simp add: divide_right_mono)
  finally have "int m * 2 ^ j \<le> \<lfloor>x / q\<rfloor>" by (simp only: le_floor_iff)
  then have "int m * 2 ^ j \<le> rne (x / q)" using rne_ge_floor [of "x / q"] by linarith
  then have "(of_int (int m * 2 ^ j) :: rat) \<le> of_int (rne (x / q))" by (simp only: of_int_le_iff)
  then have C: "of_int (int m * 2 ^ j) * q \<le> of_int (rne (x / q)) * q"
    using q0 by (simp only: mult_le_cancel_right_pos)
  have E: "of_int (int m * 2 ^ j) * q = of_int (int m)" by (simp add: qj)
  have "of_int (int m) = of_int (int m * 2 ^ j) * q" by (simp only: E)
  also have "\<dots> \<le> of_int (rne (x / q)) * q" by (rule C)
  also have "\<dots> = fl x" by (simp only: flx)
  finally have lo: "of_int (int m) \<le> fl x" .
  from lo up have "\<lfloor>fl x\<rfloor> = int m" by (simp only: floor_unique)
  then show ?thesis by (simp add: x_def m_def)
qed

text \<open>
  Below \<open>2 ^ 53\<close> every natural number is a double and is printed digit by digit.
\<close>

lemma shortest_safe:
  assumes "x < 2 ^ 53"
  shows "shortest x p = x"
proof (induction p)
  case 0
  show ?case by simp
next
  case (Suc p)
  define u :: nat where "u = 10 ^ Suc p"
  define lo where "lo = (x div u) * u"
  define hi where "hi = lo + u"
  have l: "fl (of_nat lo) = of_nat x \<Longrightarrow> lo = x" using fl_nat_inj [OF assms] .
  have h: "fl (of_nat hi) = of_nat x \<Longrightarrow> hi = x" using fl_nat_inj [OF assms] .
  have u0: "0 < u" by (simp add: u_def)
  have ne: "lo \<noteq> hi" using u0 by (simp add: hi_def)
  have "shortest x (Suc p) =
     (if (lo \<noteq> 0 \<and> fl (of_nat lo) = of_nat x) \<and> fl (of_nat hi) = of_nat x
      then (if x - lo < hi - x then lo else if hi - x < x - lo then hi
            else if even (lo div u) then lo else hi)
      else if lo \<noteq> 0 \<and> fl (of_nat lo) = of_nat x then lo
      else if fl (of_nat hi) = of_nat x then hi else shortest x p)"
    by (simp only: shortest.simps Let_def u_def lo_def hi_def)
  also have "\<dots> = x" using l h ne Suc.IH by auto
  finally show ?case .
qed

lemma number_toString_safe:
  assumes "x < 2 ^ 53"
  shows "number_toString x = show_nat x"
proof -
  have "x < 10 ^ 21" using assms by simp
  then show ?thesis by (simp add: number_toString_def shortest_safe [OF assms])
qed

lemma show_number_safe: "n < 2 ^ 53 \<Longrightarrow> show_number (int n) = show_nat n"
  by (simp add: show_number_def number_toString_safe)

lemma digit_char_0: "digit_char 0 = CHR ''0''"
  by (simp add: digit_char_def)

lemma show_nat_digit: "n < 10 \<Longrightarrow> show_nat n = [digit_char n]"
  by (simp add: show_nat.simps)

lemma show_nat_two_digits:
  assumes "10 \<le> m" and "m < 100"
  shows "show_nat m = [digit_char (m div 10), digit_char (m mod 10)]"
proof -
  have "m div 10 < 10" using assms by simp
  then show ?thesis using assms by (simp add: show_nat.simps [of m] show_nat_digit)
qed

lemma js_rem_of_nat: "js_rem (of_nat s) 60 = of_nat (s mod 60)"
proof -
  have q: "\<not> (of_nat s :: rat) / 60 < 0" by simp
  have f: "\<lfloor>(of_nat s :: rat) / 60\<rfloor> = int (s div 60)"
    using floor_divide_of_nat_eq [of s 60, where ?'a = rat] by simp
  have "(of_nat s :: rat) = of_nat (60 * (s div 60) + s mod 60)" by simp
  also have "\<dots> = 60 * of_nat (s div 60) + of_nat (s mod 60)"
    by (simp only: of_nat_add of_nat_mult of_nat_numeral)
  finally have "(of_nat s :: rat) - 60 * of_nat (s div 60) = of_nat (s mod 60)" by simp
  then show ?thesis
    unfolding js_rem_def Let_def using q by (simp add: f)
qed

lemma js_rem_int_of_nat: "js_rem_int (int s) 60 = int (s mod 60)"
  by (cases "s = 0") (simp_all add: js_rem_int_def zmod_int)

lemma seconds_part:
  assumes "m < 60"
  shows "(if int m < 10 then ''0'' else '''') @ show_nat m
           = [digit_char (m div 10), digit_char (m mod 10)]"
proof (cases "m < 10")
  case True
  then show ?thesis by (simp add: show_nat_digit digit_char_0)
next
  case False
  then show ?thesis using assms by (simp add: show_nat_two_digits)
qed

lemma seconds_safe: "show_number (int (s mod 60)) = show_nat (s mod 60)"
proof -
  have "s mod 60 < 60" by simp
  also have "(60::nat) < 2 ^ 53" by simp
  finally show ?thesis by (rule show_number_safe)
qed

lemma formatTimeA_minutes:
  "formatTimeA (of_nat s) =
     show_number \<lfloor>fl (of_nat s / 60)\<rfloor> @ '':'' @
     [digit_char (s mod 60 div 10), digit_char (s mod 60 mod 10)]"
proof -
  have "s mod 60 < 60" by simp
  from seconds_part [OF this] show ?thesis
    by (simp add: formatTimeA_def Let_def js_rem_of_nat seconds_safe)
qed

lemma formatTimeR_minutes:
  "formatTimeR (int s) =
     show_number \<lfloor>fl (of_nat s / 60)\<rfloor> @ '':'' @
     [digit_char (s mod 60 div 10), digit_char (s mod 60 mod 10)]"
proof -
  have m: "s mod 60 < 60" by simp
  show ?thesis
  proof (cases "s mod 60 < 10")
    case True
    then show ?thesis using seconds_part [OF m]
      by (simp add: formatTimeR_def Let_def js_rem_int_of_nat seconds_safe)
  next
    case False
    then show ?thesis using seconds_part [OF m]
      by (simp add: formatTimeR_def Let_def js_rem_int_of_nat seconds_safe)
  qed
qed

lemma minutes_safe:
  assumes "s < 2 ^ 53"
  shows "show_number \<lfloor>fl (of_nat s / 60)\<rfloor> = show_nat (s div 60)"
proof -
  have "s div 60 \<le> s" by simp
  from this assms have "s div 60 < 2 ^ 53" by (rule le_less_trans)
  then show ?thesis by (simp add: floor_fl_div60 [OF assms] show_number_safe)
qed

lemma show_nat_step: "10 \<le> n \<Longrightarrow> show_nat n = show_nat (n div 10) @ [digit_char (n mod 10)]"
  by (simp add: show_nat.simps [of n])

lemma spec_605: "spec_formatTime 605 = ''10:05''"
  by (simp add: spec_formatTime_def show_nat_step show_nat_digit digit_char_def)

text \<open>
  C10, as the components have it. For every non-negative integer number of seconds \<open>s\<close>
  below \<open>2 ^ 53\<close> (the integers a Number holds exactly), \<^verbatim>\<open>formatTime\<close> of either
  component returns the decimal rendering of \<open>s div 60\<close>, a colon, and the two digits of
  \<open>s mod 60\<close> (a leading zero below ten); and the two components agree on every
  non-negative integer.
\<close>

theorem formatTime_renders_minutes_and_two_digit_seconds:
  "(s < 2 ^ 53 \<longrightarrow>
      formatTimeA (of_nat s) = spec_formatTime s
      \<and> formatTimeR (int s) = spec_formatTime s
      \<and> length (drop (Suc (length (show_nat (s div 60)))) (formatTimeA (of_nat s))) = 2)
   \<and> formatTimeA (of_nat t) = formatTimeR (int t)"
  by (simp add: formatTimeA_minutes formatTimeR_minutes minutes_safe spec_formatTime_def)

theorem formatTime_renders_minutes_and_two_digit_seconds_witness:
  "(605::nat) < 2 ^ 53 \<and> formatTimeA 605 = ''10:05'' \<and> formatTimeR 605 = ''10:05''"
  using formatTime_renders_minutes_and_two_digit_seconds [of 605 605] spec_605
  by simp

text \<open>
  Beyond \<open>2 ^ 53\<close> the rounded quotient can reach the next integer: \<open>60 * 2 ^ 50 + 56\<close>
  is a double, its quotient by 60 rounds up to \<open>2 ^ 50 + 1\<close>, and both components print
  one minute more than \<open>s div 60\<close>.
\<close>

lemma big_is_double: "fl 67553994410557496 = 67553994410557496"
proof -
  have e: "ilog2 \<bar>67553994410557496\<bar> = 55" by (rule ilog2_eqI) simp_all
  have q: "(2::rat) powi (max (55 - 52) (- 1074)) = 8" by simp
  have x: "(67553994410557496 :: rat) / 8 = of_int 8444249301319687" by simp
  have "fl 67553994410557496 = of_int (rne (67553994410557496 / 8)) * 8"
    using fl_eq [of 67553994410557496] by (simp only: e q)
  also have "\<dots> = of_int 8444249301319687 * 8" by (simp only: x rne_of_int)
  also have "\<dots> = 67553994410557496" by simp
  finally show ?thesis .
qed

lemma big_floor: "\<lfloor>(67553994410557496::rat) / 15\<rfloor> = 4503599627370499"
  by (rule floor_unique) simp_all

lemma big_rne: "rne (67553994410557496 / 15) = 4503599627370500"
  unfolding rne_def Let_def big_floor by simp

lemma big_minutes: "\<lfloor>fl (67553994410557496 / 60)\<rfloor> = 1125899906842625"
proof -
  have e: "ilog2 \<bar>67553994410557496 / 60\<bar> = 50" by (rule ilog2_eqI) simp_all
  have q: "(2::rat) powi (max (50 - 52) (- 1074)) = 1 / 4" by (simp add: power_int_minus_divide)
  have x: "(67553994410557496 / 60 :: rat) / (1 / 4) = 67553994410557496 / 15" by simp
  have "fl (67553994410557496 / 60) = of_int (rne (67553994410557496 / 60 / (1 / 4))) * (1 / 4)"
    using fl_eq [of "67553994410557496 / 60"] by (simp only: e q)
  also have "\<dots> = of_int 4503599627370500 * (1 / 4)" by (simp only: x big_rne)
  also have "\<dots> = 1125899906842625" by simp
  finally show ?thesis by simp
qed

lemma show_big: "show_nat 1125899906842625 = ''1125899906842625''"
  by (simp add: show_nat_step show_nat_digit digit_char_def)

lemma spec_big: "spec_formatTime 67553994410557496 = ''1125899906842624:56''"
  by (simp add: spec_formatTime_def show_nat_step show_nat_digit digit_char_def)

theorem formatTime_minutes_counterexample:
  "fl (of_nat 67553994410557496) = of_nat 67553994410557496
   \<and> formatTimeA (of_nat 67553994410557496) = ''1125899906842625:56''
   \<and> formatTimeR (int 67553994410557496) = ''1125899906842625:56''
   \<and> spec_formatTime 67553994410557496 = ''1125899906842624:56''
   \<and> formatTimeA (of_nat 67553994410557496) \<noteq> spec_formatTime 67553994410557496"
proof -
  have m: "show_number 1125899906842625 = ''1125899906842625''"
    using show_number_safe [of 1125899906842625] show_big by simp
  have mins: "\<lfloor>fl (of_nat 67553994410557496 / 60)\<rfloor> = 1125899906842625"
    using big_minutes by simp
  have d: "[digit_char (67553994410557496 mod 60 div 10), digit_char (67553994410557496 mod 60 mod 10)] = ''56''"
    by (simp add: digit_char_def)
  have a: "formatTimeA (of_nat 67553994410557496) = ''1125899906842625:56''"
    by (simp only: formatTimeA_minutes mins m d) simp
  have r: "formatTimeR (int 67553994410557496) = ''1125899906842625:56''"
    by (simp only: formatTimeR_minutes mins m d) simp
  have i: "fl (of_nat 67553994410557496) = of_nat 67553994410557496"
    using big_is_double by simp
  show ?thesis by (simp only: a r i spec_big) simp
qed

end
